theory Spec2Isabelle
  imports Main
begin

section \<open>Python string helpers used by the chunker\<close>

text \<open>
  Python strings are modelled as \<^typ>\<open>string\<close>. The newline character
  \<^verbatim>\<open>'\n'\<close> is \<^term>\<open>CHR 0x0A\<close>.

  \<^verbatim>\<open>content.split('\n')\<close>: the pieces between the newlines; the result is
  never the empty list (\<^verbatim>\<open>''.split('\n') == ['']\<close>), and a terminal newline gives
  a last empty piece.
\<close>

fun split_nl :: "string \<Rightarrow> string list" where
  "split_nl [] = [[]]"
| "split_nl (c # cs) =
     (if c = CHR 0x0A then [] # split_nl cs
      else (case split_nl cs of
              [] \<Rightarrow> [[c]]
            | l # ls \<Rightarrow> (c # l) # ls))"

text \<open>\<^verbatim>\<open>'\n'.join(xs)\<close>.\<close>

fun join_nl :: "string list \<Rightarrow> string" where
  "join_nl [] = []"
| "join_nl [l] = l"
| "join_nl (l # l' # ls) = l @ CHR 0x0A # join_nl (l' # ls)"

text \<open>
  The Python slice \<^verbatim>\<open>xs[k:]\<close> for an integer \<open>k\<close>: a negative \<open>k\<close> counts
  from the end and is clipped at the start of the list, a non-negative one is clipped at
  its end.
\<close>

definition slice_from :: "int \<Rightarrow> 'a list \<Rightarrow> 'a list" where
  "slice_from k xs =
     (if k < 0 then drop (nat (int (length xs) + k)) xs else drop (nat k) xs)"

section \<open>chunker.py\<close>

text \<open>
  A chunk is the dict built at lines 54--61 and 71--78 of \<^verbatim>\<open>chunker.py\<close>.
\<close>

record chunk =
  content :: string
  file_path :: string
  start_line :: int
  end_line :: int
  owner :: string
  repo :: string

text \<open>
  \<^verbatim>\<open>CodeChunker\<close>: the two integers of the constructor and the tokenizer.  The
  tokenizer (tiktoken's \<^verbatim>\<open>o200k_base\<close>) is not part of the repository; it is the
  field \<open>encoding\<close>, an arbitrary function that for a text returns its list of token
  ids (\<open>Inr\<close>) or raises (\<open>Inl\<close>, with the text of the exception), as
  \<^verbatim>\<open>encode\<close> does on a text that holds a special token.
\<close>

record code_chunker =
  max_chunk_size :: int
  chunk_overlap :: int
  encoding :: "string \<Rightarrow> string + nat list"

definition count_tokens :: "code_chunker \<Rightarrow> string \<Rightarrow> string + nat" where
  "count_tokens self text =
     (case encoding self text of Inl e \<Rightarrow> Inl e | Inr tokens \<Rightarrow> Inr (length tokens))"

text \<open>
  \<^verbatim>\<open>sum(self.count_tokens(l + '\n') for l in current_chunk)\<close>: the lines are
  counted in order, and the first exception ends the sum.
\<close>

fun sum_tokens :: "code_chunker \<Rightarrow> string list \<Rightarrow> string + nat" where
  "sum_tokens self [] = Inr 0"
| "sum_tokens self (l # ls) =
     (case count_tokens self (l @ [CHR 0x0A]) of
        Inl e \<Rightarrow> Inl e
      | Inr n \<Rightarrow> (case sum_tokens self ls of Inl e \<Rightarrow> Inl e | Inr m \<Rightarrow> Inr (n + m)))"

text \<open>
  The body of the \<^verbatim>\<open>for i, line in enumerate(lines, 1)\<close> loop, on the lines still to
  be read; the loop state is \<open>(chunks, current_chunk, current_tokens, start_line)\<close>.
  An exception of the tokenizer leaves the loop.
\<close>

fun chunk_loop ::
  "code_chunker \<Rightarrow> string \<Rightarrow> string \<Rightarrow> string \<Rightarrow> int \<Rightarrow> string list \<Rightarrow>
   chunk list \<times> string list \<times> nat \<times> int \<Rightarrow>
   string + chunk list \<times> string list \<times> nat \<times> int" where
  "chunk_loop self fp ow rp i [] st = Inr st"
| "chunk_loop self fp ow rp i (line # rest) (chunks, current_chunk, current_tokens, sl) =
     (case count_tokens self (line @ [CHR 0x0A]) of
        Inl e \<Rightarrow> Inl e
      | Inr line_tokens \<Rightarrow>
          if int (current_tokens + line_tokens) > max_chunk_size self \<and> current_chunk \<noteq> [] then
            let chunk_content = join_nl current_chunk;
                chunks' = chunks @
                  [\<lparr>content = chunk_content, file_path = fp, start_line = sl,
                    end_line = i - 1, owner = ow, repo = rp\<rparr>];
                overlap_lines =
                  (if chunk_overlap self \<noteq> 0
                   then slice_from (- chunk_overlap self) current_chunk else []);
                current_chunk' = overlap_lines @ [line];
                sl' = i - int (length overlap_lines)
            in (case sum_tokens self current_chunk' of
                  Inl e \<Rightarrow> Inl e
                | Inr current_tokens' \<Rightarrow>
                    chunk_loop self fp ow rp (i + 1) rest
                      (chunks', current_chunk', current_tokens', sl'))
          else
            chunk_loop self fp ow rp (i + 1) rest
              (chunks, current_chunk @ [line], current_tokens + line_tokens, sl))"

definition chunk_by_lines ::
  "code_chunker \<Rightarrow> string \<Rightarrow> string \<Rightarrow> string \<Rightarrow> string \<Rightarrow> string + chunk list" where
  "chunk_by_lines self text fp ow rp =
     (let lines = split_nl text in
      case chunk_loop self fp ow rp 1 lines ([], [], 0, 1) of
        Inl e \<Rightarrow> Inl e
      | Inr (chunks, current_chunk, current_tokens, sl) \<Rightarrow>
          Inr (if current_chunk \<noteq> [] then
                 chunks @
                   [\<lparr>content = join_nl current_chunk, file_path = fp, start_line = sl,
                     end_line = int (length lines), owner = ow, repo = rp\<rparr>]
               else chunks))"

text \<open>
  The tokenizer returns on every line of a text, counted as the loop counts it, with
  its newline.
\<close>

definition tokenizer_returns :: "code_chunker \<Rightarrow> string \<Rightarrow> bool" where
  "tokenizer_returns self text =
     list_all (\<lambda>l. \<not> isl (encoding self (l @ [CHR 0x0A]))) (split_nl text)"

subsection \<open>Reading chunks back\<close>

text \<open>
  The lines \<open>s..e\<close> of a file, 1-based and inclusive, as the metadata
  \<open>start_line\<close>, \<open>end_line\<close> of a chunk names them.
\<close>

definition lines_range :: "string list \<Rightarrow> int \<Rightarrow> int \<Rightarrow> string list" where
  "lines_range ls s e = take (nat (e - s + 1)) (drop (nat (s - 1)) ls)"

text \<open>
  Removing the overlap: a chunk that follows a chunk ending at line \<open>prev_end\<close> and
  starts at line \<open>start_line c\<close> repeats the \<open>prev_end - start_line c + 1\<close> lines it
  shares with its predecessor; they are dropped from the front of its content. The
  first chunk is kept whole.
\<close>

fun dedup_tail :: "int \<Rightarrow> chunk list \<Rightarrow> string list" where
  "dedup_tail prev_end [] = []"
| "dedup_tail prev_end (c # cs) =
     drop (nat (prev_end - start_line c + 1)) (split_nl (content c)) @ dedup_tail (end_line c) cs"


text \<open>The per-line-summed token count of a chunk, the measure the loop keeps.\<close>

definition chunk_tokens :: "code_chunker \<Rightarrow> chunk \<Rightarrow> string + nat" where
  "chunk_tokens self c = sum_tokens self (split_nl (content c))"

text \<open>The end line of the last chunk emitted so far (\<open>p\<close> when there is none).\<close>

definition last_end :: "int \<Rightarrow> chunk list \<Rightarrow> int" where
  "last_end p cs = (if cs = [] then p else end_line (last cs))"

text \<open>
  The invariant of the loop of \<open>chunk_by_lines\<close> after the lines \<open>pre\<close> of the file
  \<open>all\<close> have been read: the buffer holds the lines from \<open>start_line\<close> on, every
  emitted chunk is a line range of the file, and the emitted chunks cover the lines up
  to the end of the last one.
\<close>

definition chunk_inv ::
  "string list \<Rightarrow> string list \<Rightarrow> chunk list \<times> string list \<times> nat \<times> int \<Rightarrow> bool" where
  "chunk_inv all pre st =
     (case st of (chunks, current_chunk, current_tokens, sl) \<Rightarrow>
        1 \<le> sl \<and> sl \<le> int (length pre) + 1 \<and> (pre \<noteq> [] \<longrightarrow> sl \<le> int (length pre)) \<and>
        current_chunk = drop (nat (sl - 1)) pre \<and>
        (\<forall>c\<in>set chunks. 1 \<le> start_line c \<and> start_line c \<le> end_line c \<and>
           end_line c \<le> int (length pre) \<and>
           content c = join_nl (lines_range all (start_line c) (end_line c))) \<and>
        0 \<le> last_end 0 chunks \<and> last_end 0 chunks \<le> int (length pre) \<and>
        sl \<le> last_end 0 chunks + 1 \<and>
        dedup_tail 0 chunks = take (nat (last_end 0 chunks)) pre)"

section \<open>agent.py: collection names and URL validation\<close>

text \<open>
  \<^verbatim>\<open>str.isalnum\<close> on one character is decided by the Unicode database of Python,
  which is not part of the repository: it is the parameter \<open>isalnum\<close> of
  \<open>sanitize_collection_name\<close>. On the ASCII characters it is the predicate
  \<open>ascii_alnum\<close>: the digits and the letters.
\<close>

definition ascii_alnum :: "char \<Rightarrow> bool" where
  "ascii_alnum c =
     (let n = (of_char c :: nat) in
      (48 \<le> n \<and> n \<le> 57) \<or> (65 \<le> n \<and> n \<le> 90) \<or> (97 \<le> n \<and> n \<le> 122))"

text \<open>\<^verbatim>\<open>s.strip('_')\<close>: the underscores at both ends are removed.\<close>

definition strip_underscores :: "string \<Rightarrow> string" where
  "strip_underscores s =
     rev (dropWhile (\<lambda>c. c = CHR ''_'') (rev (dropWhile (\<lambda>c. c = CHR ''_'') s)))"

text \<open>\<^verbatim>\<open>s.endswith('_')\<close>.\<close>

definition ends_with_underscore :: "string \<Rightarrow> bool" where
  "ends_with_underscore s = (s \<noteq> [] \<and> last s = CHR ''_'')"

definition sanitize_collection_name :: "(char \<Rightarrow> bool) \<Rightarrow> string \<Rightarrow> string \<Rightarrow> string" where
  "sanitize_collection_name isalnum ow rp =
     (let raw_name = ow @ ''_'' @ rp;
          s1 = map (\<lambda>c. if c = CHR ''-'' then CHR ''_'' else c) raw_name;
          s2 = filter (\<lambda>c. isalnum c \<or> c = CHR ''_'') s1;
          s3 = strip_underscores s2;
          s4 = (if length s3 > 60 then take 60 s3 else s3);
          s5 = (if length s4 < 3 then s4 @ ''_collection'' else s4);
          s6 = (if ends_with_underscore s5 then butlast s5 @ ''x'' else s5)
      in s6)"

text \<open>
  \<^verbatim>\<open>re.match(r"^https://github.com/([^/]+)/([^/]+)", url)\<close>, written out. The
  pattern is matched at the start of the string: the literal \<^verbatim>\<open>https://github\<close>,
  one character that is not a newline (the dot of the pattern is not escaped), the
  literal \<^verbatim>\<open>com/\<close>, then a first group of one or more characters other than
  \<^verbatim>\<open>/\<close>, a \<^verbatim>\<open>/\<close>, and a second such group. A group is greedy and
  must be followed by \<^verbatim>\<open>/\<close> (the first) or by nothing more of the pattern (the
  second), so each group is the longest run of characters other than \<^verbatim>\<open>/\<close>.
  The result is the pair of groups, or \<open>None\<close> when there is no match.
\<close>

fun strip_prefix :: "string \<Rightarrow> string \<Rightarrow> string option" where
  "strip_prefix [] s = Some s"
| "strip_prefix (p # ps) [] = None"
| "strip_prefix (p # ps) (c # cs) = (if p = c then strip_prefix ps cs else None)"

definition re_match_github :: "string \<Rightarrow> (string \<times> string) option" where
  "re_match_github url =
     (case strip_prefix ''https://github'' url of
        None \<Rightarrow> None
      | Some r1 \<Rightarrow>
         (case r1 of
            [] \<Rightarrow> None
          | d # r2 \<Rightarrow>
             if d = CHR 0x0A then None
             else
               (case strip_prefix ''com/'' r2 of
                  None \<Rightarrow> None
                | Some r3 \<Rightarrow>
                   (let g1 = takeWhile (\<lambda>c. c \<noteq> CHR ''/'') r3;
                        r4 = dropWhile (\<lambda>c. c \<noteq> CHR ''/'') r3
                    in if g1 = [] then None
                       else
                         (case r4 of
                            [] \<Rightarrow> None
                          | _ # r5 \<Rightarrow>
                             (let g2 = takeWhile (\<lambda>c. c \<noteq> CHR ''/'') r5
                              in if g2 = [] then None else Some (g1, g2)))))))"

text \<open>
  The state of the graph (\<^verbatim>\<open>RAGState\<close>), with the keys the nodes read; a key
  that may be absent (read with \<^verbatim>\<open>state.get\<close>) is an option. A node returns a
  partial state: the keys it sets.
\<close>

record message =
  role :: string
  msg_content :: string

record rag_state =
  repo_url :: string
  chat_history :: "message list option"
  state_owner :: "string option"
  state_repo :: "string option"
  collection_name :: "string option"

record rag_update =
  upd_valid :: "bool option"
  upd_owner :: "string option"
  upd_repo :: "string option"
  upd_error :: "string option"
  upd_answer :: "string option"
  upd_chat_history :: "message list option"

definition no_update :: rag_update where
  "no_update = \<lparr>upd_valid = None, upd_owner = None, upd_repo = None, upd_error = None,
     upd_answer = None, upd_chat_history = None\<rparr>"

definition validate_url_node :: "rag_state \<Rightarrow> rag_update" where
  "validate_url_node state =
     (case re_match_github (repo_url state) of
        Some (g1, g2) \<Rightarrow>
          no_update\<lparr>upd_valid := Some True, upd_owner := Some g1, upd_repo := Some g2,
            upd_error := Some ''''\<rparr>
      | None \<Rightarrow> no_update\<lparr>upd_valid := Some False, upd_error := Some ''Invalid GitHub URL''\<rparr>)"

section \<open>The external services\<close>

text \<open>
  The OpenAI client, the ChromaDB client and their network calls are not part of the
  repository. A call is a function that returns its response (\<open>Inr\<close>) or raises
  (\<open>Inl\<close>, with the text of the exception); \<open>embeddings_create\<close> takes the
  \<^verbatim>\<open>input\<close> of \<^verbatim>\<open>client.embeddings.create\<close> (a single string is a batch of
  one) and returns the embeddings of \<^verbatim>\<open>response.data\<close>, \<open>collection_query\<close>
  returns the \<^verbatim>\<open>documents\<close> of the result, \<open>chat_completions_create\<close> takes
  the system and the user prompt and returns the content of the first choice. Every
  function of the program that calls a service returns, next to its result, the calls
  it made, in order.
\<close>

datatype ('v, 'c) call =
    EmbeddingsCreate "string list"
  | GetCollection string
  | CreateCollection string
  | CollectionQuery 'c 'v int
  | ChatCompletion string string

record ('v, 'c) services =
  embeddings_create :: "string list \<Rightarrow> string + 'v list"
  get_collection :: "string \<Rightarrow> string + 'c"
  create_collection :: "string \<Rightarrow> string + 'c"
  collection_query :: "'c \<Rightarrow> 'v \<Rightarrow> int \<Rightarrow> string + string list list"
  chat_completions_create :: "string \<Rightarrow> string \<Rightarrow> string + string"

section \<open>embedder.py\<close>

text \<open>
  \<^verbatim>\<open>generate_embedding\<close>: one call, and the first element of its data
  (\<^verbatim>\<open>response.data[0]\<close> raises IndexError on an empty list).
\<close>

definition generate_embedding ::
  "(string list \<Rightarrow> string + 'v list) \<Rightarrow> string \<Rightarrow> (string + 'v) \<times> ('v, 'c) call list" where
  "generate_embedding api t =
     (case api [t] of
        Inl e \<Rightarrow> Inl e
      | Inr data \<Rightarrow>
          (case data of [] \<Rightarrow> Inl ''list index out of range'' | v # _ \<Rightarrow> Inr v),
      [EmbeddingsCreate [t]])"

text \<open>
  The loop \<^verbatim>\<open>for i in range(0, len(texts), batch_size)\<close> for a positive step
  \<open>bs\<close>, from the index \<open>i\<close> on; an exception of the call ends it. (The test
  \<open>bs = 0\<close> is never true where the loop is entered; it makes the recursion
  terminate for every argument.)
\<close>

function batch_loop ::
  "(string list \<Rightarrow> string + 'v list) \<Rightarrow> string list \<Rightarrow> nat \<Rightarrow> nat \<Rightarrow> 'v list \<Rightarrow>
   ('v, 'c) call list \<Rightarrow> (string + 'v list) \<times> ('v, 'c) call list" where
  "batch_loop api texts bs i embeddings calls =
     (if bs = 0 \<or> length texts \<le> i then (Inr embeddings, calls)
      else
        (let batch = take bs (drop i texts) in
         case api batch of
           Inl e \<Rightarrow> (Inl e, calls @ [EmbeddingsCreate batch])
         | Inr data \<Rightarrow>
             batch_loop api texts bs (i + bs) (embeddings @ data)
               (calls @ [EmbeddingsCreate batch])))"
  by pat_completeness auto
termination
  by (relation "measure (\<lambda>(api, texts, bs, i, embeddings, calls). length texts - i)") auto

declare batch_loop.simps [simp del]

text \<open>
  \<^verbatim>\<open>generate_batch_embeddings\<close>. \<^verbatim>\<open>range\<close> raises ValueError for the step 0
  and is empty for a negative step.
\<close>

definition generate_batch_embeddings ::
  "(string list \<Rightarrow> string + 'v list) \<Rightarrow> string list \<Rightarrow> int \<Rightarrow>
   (string + 'v list) \<times> ('v, 'c) call list" where
  "generate_batch_embeddings api texts batch_size =
     (if batch_size = 0 then (Inl ''range() arg 3 must not be zero'', [])
      else if batch_size < 0 then (Inr [], [])
      else batch_loop api texts (nat batch_size) 0 [] [])"

section \<open>vector_store.py\<close>

text \<open>\<^verbatim>\<open>str\<close> of an integer, as the f-string of the identifier formats a line number.\<close>

fun str_nat :: "nat \<Rightarrow> string" where
  "str_nat n =
     (if n < 10 then [char_of (48 + n)]
      else str_nat (n div 10) @ [char_of (48 + n mod 10)])"

declare str_nat.simps [simp del]

definition str_int :: "int \<Rightarrow> string" where
  "str_int i = (if i < 0 then CHR ''-'' # str_nat (nat (- i)) else str_nat (nat i))"

text \<open>A stored record, and a collection as the list of its records in the order stored.\<close>

record 'v stored_record =
  record_id :: string
  document :: string
  embedding :: 'v
  metadata :: chunk

type_synonym 'v collection = "'v stored_record list"

text \<open>
  Modelled from the spec: \<^verbatim>\<open>Collection.add\<close> of ChromaDB, which is not part of the
  repository. The spec (4.4 and the data model) says of it: the call requires as many
  embeddings as chunks and is a malformed call (StoreError) otherwise; a record whose
  identifier is a duplicate, of an earlier record of the same batch or of a stored
  record, is rejected without an error and without overwriting the stored record; the
  other records are stored.
\<close>

fun add_records :: "'v collection \<Rightarrow> 'v stored_record list \<Rightarrow> 'v collection" where
  "add_records col [] = col"
| "add_records col (r # rs) =
     add_records (if record_id r \<in> set (map record_id col) then col else col @ [r]) rs"

definition collection_add ::
  "'v collection \<Rightarrow> string list \<Rightarrow> string list \<Rightarrow> 'v list \<Rightarrow> chunk list \<Rightarrow>
   string + 'v collection" where
  "collection_add col ids documents embeddings metadatas =
     (if length documents = length ids \<and> length embeddings = length ids \<and>
         length metadatas = length ids
      then Inr (add_records col
             (map (\<lambda>(i, d, e, m). \<lparr>record_id = i, document = d, embedding = e, metadata = m\<rparr>)
                (zip ids (zip documents (zip embeddings metadatas)))))
      else Inl ''StoreError'')"

text \<open>\<^verbatim>\<open>store_chunks\<close>, lines 44--47 of \<^verbatim>\<open>vector_store.py\<close>.\<close>

definition chunk_id :: "chunk \<Rightarrow> string" where
  "chunk_id c = file_path c @ ''_'' @ str_int (start_line c) @ ''_'' @ str_int (end_line c)"

definition store_chunks :: "'v collection \<Rightarrow> chunk list \<Rightarrow> 'v list \<Rightarrow> string + 'v collection" where
  "store_chunks col chunks embeddings =
     (let ids = map chunk_id chunks;
          documents = map content chunks;
          metadatas = chunks
      in collection_add col ids documents embeddings metadatas)"

text \<open>\<^verbatim>\<open>create_or_get_collection\<close> and \<^verbatim>\<open>query_similar_code\<close>.\<close>

definition create_or_get_collection ::
  "('v, 'c) services \<Rightarrow> string \<Rightarrow> (string + 'c) \<times> ('v, 'c) call list" where
  "create_or_get_collection svc name =
     (case get_collection svc name of
        Inr c \<Rightarrow> (Inr c, [GetCollection name])
      | Inl e \<Rightarrow> (create_collection svc name, [GetCollection name, CreateCollection name]))"

definition query_similar_code ::
  "('v, 'c) services \<Rightarrow> 'c \<Rightarrow> 'v \<Rightarrow> int \<Rightarrow> (string + string list list) \<times> ('v, 'c) call list" where
  "query_similar_code svc col query_embedding n_results =
     (collection_query svc col query_embedding n_results,
      [CollectionQuery col query_embedding n_results])"

section \<open>agent.py: the chat node\<close>

text \<open>\<^verbatim>\<open>sep.join(xs)\<close>.\<close>

fun py_join :: "string \<Rightarrow> string list \<Rightarrow> string" where
  "py_join sep [] = []"
| "py_join sep [x] = x"
| "py_join sep (x # y # xs) = x @ sep @ py_join sep (y # xs)"

text \<open>\<^verbatim>\<open>state.get(key, '')\<close>.\<close>

definition get_or_empty :: "string option \<Rightarrow> string" where
  "get_or_empty v = (case v of None \<Rightarrow> [] | Some s \<Rightarrow> s)"

definition welcome_message :: "rag_state \<Rightarrow> string" where
  "welcome_message state =
     ''Hello! I'm ready to help you with questions about the '' @
     get_or_empty (state_owner state) @ ''/'' @ get_or_empty (state_repo state) @
     '' repository. What would you like to know?''"

definition greeting_update :: "rag_state \<Rightarrow> rag_update" where
  "greeting_update state =
     no_update\<lparr>upd_answer := Some (welcome_message state),
       upd_chat_history := Some [\<lparr>role = ''assistant'', msg_content = welcome_message state\<rparr>],
       upd_error := Some []\<rparr>"

text \<open>The history lines of the prompt, lines 188--196.\<close>

fun history_lines :: "message list \<Rightarrow> string" where
  "history_lines [] = []"
| "history_lines (msg # rest) =
     (if role msg = ''user'' then ''Previous Question: '' @ msg_content msg @ [CHR 0x0A]
      else if role msg = ''assistant'' then ''Previous Answer: '' @ msg_content msg @ [CHR 0x0A]
      else []) @ history_lines rest"

definition conversation_context :: "message list \<Rightarrow> string" where
  "conversation_context h =
     (if length h > 1 then history_lines (butlast (slice_from (- 6) h)) else [])"

definition system_prompt :: "rag_state \<Rightarrow> string" where
  "system_prompt state =
     ''You are a helpful codebase assistant for the GitHub repository '' @
     get_or_empty (state_owner state) @ ''/'' @ get_or_empty (state_repo state) @ ''. '' @
     [CHR 0x0A] @ ''        '' @ [CHR 0x0A] @
     ''Your task is to answer questions about the codebase using the provided context from the repository's code.'' @
     [CHR 0x0A, CHR 0x0A] @
     ''Guidelines:'' @ [CHR 0x0A] @
     ''- Provide clear, concise answers based on the code context'' @ [CHR 0x0A] @
     ''- Include relevant code snippets when helpful'' @ [CHR 0x0A] @
     ''- If the context doesn't contain enough information to answer the question, say so'' @
     [CHR 0x0A] @
     ''- Reference specific files or functions when relevant'' @ [CHR 0x0A] @
     ''- Be conversational and helpful'' @ [CHR 0x0A] @
     ''- Consider the conversation history when providing context-aware responses''"

definition user_prompt :: "string \<Rightarrow> string \<Rightarrow> string \<Rightarrow> string" where
  "user_prompt context conv query =
     ''Context from codebase:'' @ [CHR 0x0A] @ context @ [CHR 0x0A, CHR 0x0A] @
     conv @ [CHR 0x0A, CHR 0x0A] @
     ''Current Question: '' @ query @ [CHR 0x0A, CHR 0x0A] @
     ''Please provide a helpful answer based on the codebase context.''"

text \<open>
  Lines 181--186: the collection of the state is looked up (a missing key
  \<^verbatim>\<open>collection_name\<close> raises KeyError), queried for five results, and the
  documents of the first query are taken.
\<close>

definition retrieve_documents ::
  "('v, 'c) services \<Rightarrow> rag_state \<Rightarrow> 'v \<Rightarrow> (string + string list) \<times> ('v, 'c) call list" where
  "retrieve_documents svc state query_embedding =
     (case collection_name state of
        None \<Rightarrow> (Inl ([CHR 0x27] @ ''collection_name'' @ [CHR 0x27]), [])
      | Some name \<Rightarrow>
         (case create_or_get_collection svc name of
            (Inl e, c1) \<Rightarrow> (Inl e, c1)
          | (Inr col, c1) \<Rightarrow>
             (case query_similar_code svc col query_embedding 5 of
                (Inl e, c2) \<Rightarrow> (Inl e, c1 @ c2)
              | (Inr documents, c2) \<Rightarrow>
                 (case documents of
                    [] \<Rightarrow> (Inl ''list index out of range'', c1 @ c2)
                  | docs # _ \<Rightarrow> (Inr docs, c1 @ c2)))))"

text \<open>
  The body of the \<^verbatim>\<open>try\<close> of \<open>chat_node\<close> for a non-empty history \<open>h\<close>: it
  returns the answer of the language model, or raises.
\<close>

definition chat_turn ::
  "('v, 'c) services \<Rightarrow> rag_state \<Rightarrow> message list \<Rightarrow> (string + string) \<times> ('v, 'c) call list" where
  "chat_turn svc state h =
     (let query = msg_content (last h) in
      case generate_embedding (embeddings_create svc) query of
        (Inl e, c1) \<Rightarrow> (Inl e, c1)
      | (Inr query_embedding, c1) \<Rightarrow>
         (case retrieve_documents svc state query_embedding of
            (Inl e, c2) \<Rightarrow> (Inl e, c1 @ c2)
          | (Inr docs, c2) \<Rightarrow>
             (let context = py_join [CHR 0x0A, CHR 0x0A] docs;
                  sp = system_prompt state;
                  up = user_prompt context (conversation_context h) query
              in (chat_completions_create svc sp up, c1 @ c2 @ [ChatCompletion sp up]))))"

definition chat_error :: "string \<Rightarrow> rag_update" where
  "chat_error e =
     no_update\<lparr>upd_error := Some (''Error in chat: '' @ e),
       upd_answer := Some ''Sorry, I encountered an error while processing your question.''\<rparr>"

definition chat_node ::
  "('v, 'c) services \<Rightarrow> rag_state \<Rightarrow> rag_update \<times> ('v, 'c) call list" where
  "chat_node svc state =
     (case chat_history state of
        None \<Rightarrow> (greeting_update state, [])
      | Some h \<Rightarrow>
         if h = [] then (greeting_update state, [])
         else
           (case chat_turn svc state h of
              (Inl e, calls) \<Rightarrow> (chat_error e, calls)
            | (Inr answer, calls) \<Rightarrow>
               (no_update\<lparr>upd_answer := Some answer,
                  upd_chat_history := Some (h @ [\<lparr>role = ''assistant'', msg_content = answer\<rparr>]),
                  upd_error := Some []\<rparr>, calls)))"

section \<open>Concrete inputs\<close>

subsection \<open>Concrete chunkers\<close>

text \<open>
  A chunker with a budget of four tokens, the default overlap of 100 lines and a
  tokenizer that never raises and makes every character one token, and a file of three
  lines of two characters each (three tokens a line, with its newline).
\<close>

definition byte_chunker :: code_chunker where
  "byte_chunker =
     \<lparr>max_chunk_size = 4, chunk_overlap = 100, encoding = (\<lambda>t. Inr (map of_char t))\<rparr>"

definition three_lines :: string where
  "three_lines = ''ab'' @ [CHR 0x0A] @ ''cd'' @ [CHR 0x0A] @ ''ef''"



subsection \<open>Concrete services and states\<close>

text \<open>
  Services in which the embedding of a text is its length, every collection exists and
  answers a query with one document, and the language model is down; a state with one
  user turn and the same state with an empty history.
\<close>

definition llm_down_services :: "(int, unit) services" where
  "llm_down_services =
     \<lparr>embeddings_create = (\<lambda>batch. Inr (map (\<lambda>s. int (length s)) batch)),
      get_collection = (\<lambda>name. Inr ()),
      create_collection = (\<lambda>name. Inr ()),
      collection_query = (\<lambda>col v n. Inr [[''def f(): pass'']]),
      chat_completions_create = (\<lambda>sp up. Inl ''rate limit'')\<rparr>"

definition one_turn_state :: rag_state where
  "one_turn_state =
     \<lparr>repo_url = ''https://github.com/o/r'',
      chat_history = Some [\<lparr>role = ''user'', msg_content = ''hi''\<rparr>],
      state_owner = Some ''o'', state_repo = Some ''r'', collection_name = Some ''o_r''\<rparr>"

definition no_turn_state :: rag_state where
  "no_turn_state = one_turn_state\<lparr>chat_history := Some []\<rparr>"

text \<open>A chunk, and the record \<open>store_chunks\<close> makes of it with the embedding 1.\<close>

definition first_chunk :: chunk where
  "first_chunk = \<lparr>content = ''ab'', file_path = ''f.py'', start_line = 1, end_line = 1,
     owner = ''o'', repo = ''r''\<rparr>"

definition first_record :: "int stored_record" where
  "first_record = \<lparr>record_id = ''f.py_1_1'', document = ''ab'', embedding = 1,
     metadata = first_chunk\<rparr>"

section \<open>Properties of the string helpers\<close>

lemma split_nl_nonempty: "split_nl s \<noteq> []"
  by (induction s) (auto split: list.splits)

lemma split_nl_no_newline: "l \<in> set (split_nl s) \<Longrightarrow> CHR 0x0A \<notin> set l"
  by (induction s arbitrary: l) (auto split: list.splits if_splits)

lemma split_nl_plain: "CHR 0x0A \<notin> set l \<Longrightarrow> split_nl l = [l]"
  by (induction l) auto

lemma split_nl_append: "CHR 0x0A \<notin> set l \<Longrightarrow> split_nl (l @ CHR 0x0A # s) = l # split_nl s"
  by (induction l) auto

lemma split_join_nl:
  "ls \<noteq> [] \<Longrightarrow> \<forall>l\<in>set ls. CHR 0x0A \<notin> set l \<Longrightarrow> split_nl (join_nl ls) = ls"
  by (induction ls rule: join_nl.induct) (auto simp: split_nl_plain split_nl_append)


section \<open>The loop invariant of the chunker\<close>

lemma dedup_tail_snoc:
  "dedup_tail p (cs @ [c]) =
     dedup_tail p cs @ drop (nat (last_end p cs - start_line c + 1)) (split_nl (content c))"
  by (induction cs arbitrary: p) (auto simp: last_end_def)

lemma last_end_snoc: "last_end p (cs @ [c]) = end_line c"
  by (simp add: last_end_def)

lemma slice_from_suffix: "\<exists>n. slice_from k xs = drop n xs \<and> n \<le> length xs"
proof (cases "k < 0")
  case True
  then show ?thesis
    by (intro exI[of _ "nat (int (length xs) + k)"]) (auto simp: slice_from_def)
next
  case False
  show ?thesis
  proof (cases "nat k \<le> length xs")
    case True
    with False show ?thesis by (intro exI[of _ "nat k"]) (auto simp: slice_from_def)
  next
    case False
    with \<open>\<not> k < 0\<close> show ?thesis by (intro exI[of _ "length xs"]) (auto simp: slice_from_def)
  qed
qed

lemma overlap_suffix:
  "\<exists>n. (if ov \<noteq> 0 then slice_from (- ov) xs else []) = drop n xs \<and> n \<le> length xs"
proof (cases "ov = 0")
  case True
  then show ?thesis by (intro exI[of _ "length xs"]) simp
next
  case False
  then show ?thesis using slice_from_suffix[of "- ov" xs] by simp
qed

lemma chunk_inv_init: "chunk_inv all [] ([], [], 0, 1)"
  by (simp add: chunk_inv_def last_end_def)

lemma chunk_inv_append:
  assumes "chunk_inv all pre (chunks, cc, ct, sl)"
  shows "chunk_inv all (pre @ [line]) (chunks, cc @ [line], ct', sl)"
  using assms by (auto simp: chunk_inv_def)

lemma lines_range_prefix:
  assumes "1 \<le> s" "s \<le> int (length pre) + 1"
  shows "lines_range (pre @ rest) s (int (length pre)) = drop (nat (s - 1)) pre"
  using assms by (simp add: lines_range_def) 

lemma chunk_invI:
  assumes "1 \<le> sl" "sl \<le> int (length pre) + 1" "pre \<noteq> [] \<Longrightarrow> sl \<le> int (length pre)"
    and "cc = drop (nat (sl - 1)) pre"
    and "\<And>c. c \<in> set chunks \<Longrightarrow> 1 \<le> start_line c \<and> start_line c \<le> end_line c \<and>
           end_line c \<le> int (length pre) \<and>
           content c = join_nl (lines_range all (start_line c) (end_line c))"
    and "0 \<le> last_end 0 chunks" "last_end 0 chunks \<le> int (length pre)"
    and "sl \<le> last_end 0 chunks + 1"
    and "dedup_tail 0 chunks = take (nat (last_end 0 chunks)) pre"
  shows "chunk_inv all pre (chunks, cc, ct, sl)"
  unfolding chunk_inv_def using assms by simp

lemma chunk_inv_emit:
  assumes inv: "chunk_inv (pre @ line # rest) pre (chunks, cc, ct, sl)"
    and ne: "cc \<noteq> []"
    and nl: "\<forall>l\<in>set pre. CHR 0x0A \<notin> set l"
    and n: "n \<le> length cc"
  shows "chunk_inv (pre @ line # rest) (pre @ [line])
           (chunks @ [\<lparr>content = join_nl cc, file_path = fp, start_line = sl,
                end_line = (int (length pre) + 1) - 1, owner = ow, repo = rp\<rparr>],
            drop n cc @ [line], ct', (int (length pre) + 1) - int (length (drop n cc)))"
proof -
  let ?L = "last_end 0 chunks"
  let ?all = "pre @ line # rest"
  let ?c = "\<lparr>content = join_nl cc, file_path = fp, start_line = sl,
                end_line = (int (length pre) + 1) - 1, owner = ow, repo = rp\<rparr>"
  let ?sl = "(int (length pre) + 1) - int (length (drop n cc))"
  from inv have sl: "1 \<le> sl" "sl \<le> int (length pre) + 1"
    and cc: "cc = drop (nat (sl - 1)) pre"
    and old: "\<And>c. c \<in> set chunks \<Longrightarrow> 1 \<le> start_line c \<and> start_line c \<le> end_line c \<and>
           end_line c \<le> int (length pre) \<and>
           content c = join_nl (lines_range ?all (start_line c) (end_line c))"
    and L: "0 \<le> ?L" "?L \<le> int (length pre)" "sl \<le> ?L + 1"
    and dd: "dedup_tail 0 chunks = take (nat ?L) pre"
    unfolding chunk_inv_def by simp_all
  from ne cc have sl_le: "sl \<le> int (length pre)" by (cases "sl \<le> int (length pre)") auto
  have len_cc: "int (length cc) = int (length pre) - (sl - 1)"
    using cc sl sl_le by simp
  have nlcc: "\<forall>l\<in>set cc. CHR 0x0A \<notin> set l"
    using nl cc by (auto dest: in_set_dropD)
  have split: "split_nl (join_nl cc) = cc"
    using split_join_nl[OF ne nlcc] .
  have cont: "join_nl cc = join_nl (lines_range ?all sl (int (length pre)))"
    using lines_range_prefix[OF sl] cc by simp
  have "nat (?L - sl + 1) + nat (sl - 1) = nat ?L"
    using L sl by arith
  then have piece: "drop (nat (?L - sl + 1)) cc = drop (nat ?L) pre"
    unfolding cc drop_drop by simp
  have cover: "dedup_tail 0 chunks @ drop (nat (?L - sl + 1)) cc = pre"
    using dd piece by simp
  have "n + nat (sl - 1) = nat (?sl - 1)"
    using n sl sl_le len_cc by simp
  moreover have "drop n cc = drop (n + nat (sl - 1)) pre"
    by (simp add: cc)
  ultimately have buf: "drop n cc = drop (nat (?sl - 1)) pre"
    by (simp only:)
  have b1: "1 \<le> ?sl" using n sl sl_le len_cc by simp
  have b2: "?sl \<le> int (length pre)+ 1" by simp
  have len1: "nat (?sl - 1) \<le> length pre" using b1 b2 by arith
  show ?thesis
  proof (rule chunk_invI)
    show "1 \<le> ?sl" by (rule b1)
    show "?sl \<le> int (length (pre @ [line])) + 1" using b2 by simp
    show "?sl \<le> int (length (pre @ [line]))" using b2 by simp
    show "drop n cc @ [line] = drop (nat (?sl - 1)) (pre @ [line])"
      using buf len1 by simp
    show "0 \<le> last_end 0 (chunks @ [?c])" by (simp add: last_end_snoc)
    show "last_end 0 (chunks @ [?c]) \<le> int (length (pre @ [line]))"
      by (simp add: last_end_snoc)
    show "?sl \<le> last_end 0 (chunks @ [?c]) + 1"
      by (simp add: last_end_snoc)
    show "dedup_tail 0 (chunks @ [?c]) = take (nat (last_end 0 (chunks @ [?c]))) (pre @ [line])"
      using cover by (simp add: last_end_snoc dedup_tail_snoc split)
  next
    fix c assume "c \<in> set (chunks @ [?c])"
    then consider "c \<in> set chunks" | "c = ?c" by auto
    then show "1 \<le> start_line c \<and> start_line c \<le> end_line c \<and>
           end_line c \<le> int (length (pre @ [line])) \<and>
           content c = join_nl (lines_range ?all (start_line c) (end_line c))"
    proof cases
      case 1
      from old[OF 1] show ?thesis by simp
    next
      case 2
      then show ?thesis using sl sl_le cont by simp
    qed
  qed
qed

lemma chunk_loop_raise:
  assumes "count_tokens self (line @ [CHR 0x0A]) = Inl e"
  shows "chunk_loop self fp ow rp i (line # rest) (chunks, cc, ct, sl) = Inl e"
  using assms by simp

lemma chunk_loop_keep:
  assumes "count_tokens self (line @ [CHR 0x0A]) = Inr lt"
    and "\<not> (int (ct + lt) > max_chunk_size self \<and> cc \<noteq> [])"
  shows "chunk_loop self fp ow rp i (line # rest) (chunks, cc, ct, sl) =
         chunk_loop self fp ow rp (i + 1) rest (chunks, cc @ [line], ct + lt, sl)"
  using assms by (auto simp: Let_def)

lemma chunk_loop_emit_raise:
  assumes "count_tokens self (line @ [CHR 0x0A]) = Inr lt"
    and "int (ct + lt) > max_chunk_size self" "cc \<noteq> []"
    and "(if chunk_overlap self \<noteq> 0 then slice_from (- chunk_overlap self) cc else []) = ov"
    and "sum_tokens self (ov @ [line]) = Inl e"
  shows "chunk_loop self fp ow rp i (line # rest) (chunks, cc, ct, sl) = Inl e"
  using assms by (auto simp: Let_def)

lemma chunk_loop_emit:
  assumes "count_tokens self (line @ [CHR 0x0A]) = Inr lt"
    and "int (ct + lt) > max_chunk_size self" "cc \<noteq> []"
    and "(if chunk_overlap self \<noteq> 0 then slice_from (- chunk_overlap self) cc else []) = ov"
    and "sum_tokens self (ov @ [line]) = Inr ct'"
  shows "chunk_loop self fp ow rp i (line # rest) (chunks, cc, ct, sl) =
         chunk_loop self fp ow rp (i + 1) rest
           (chunks @ [\<lparr>content = join_nl cc, file_path = fp, start_line = sl,
                end_line = i - 1, owner = ow, repo = rp\<rparr>],
            ov @ [line], ct', i - int (length ov))"
  using assms by (auto simp: Let_def)

lemma chunk_loop_inv:
  assumes "chunk_inv (pre @ rest) pre st"
    and "\<forall>l\<in>set (pre @ rest). CHR 0x0A \<notin> set l"
    and "i = int (length pre) + 1"
    and "chunk_loop self fp ow rp i rest st = Inr st'"
  shows "chunk_inv (pre @ rest) (pre @ rest) st'"
  using assms
proof (induction rest arbitrary: pre st i)
  case Nil
  then show ?case by simp
next
  case (Cons line rest)
  obtain chunks cc ct sl where st: "st = (chunks, cc, ct, sl)"
    by (rule prod_cases4)
  have nl': "\<forall>l\<in>set ((pre @ [line]) @ rest). CHR 0x0A \<notin> set l"
    using Cons.prems(2) by simp
  have i': "i + 1 = int (length (pre @ [line])) + 1"
    using Cons.prems(3) by simp
  note run = Cons.prems(4)[unfolded st]
  show ?case
  proof (cases "count_tokens self (line @ [CHR 0x0A])")
    case (Inl e)
    from chunk_loop_raise[OF Inl] run show ?thesis by simp
  next
    case (Inr lt)
    show ?thesis
    proof (cases "int (ct + lt) > max_chunk_size self \<and> cc \<noteq> []")
      case True
      then have over: "int (ct + lt) > max_chunk_size self" and ne: "cc \<noteq> []" by simp_all
      obtain n where n: "(if chunk_overlap self \<noteq> 0
               then slice_from (- chunk_overlap self) cc else []) = drop n cc" "n \<le> length cc"
        using overlap_suffix by blast
      have nlpre: "\<forall>l\<in>set pre. CHR 0x0A \<notin> set l" using Cons.prems(2) by simp
      show ?thesis
      proof (cases "sum_tokens self (drop n cc @ [line])")
        case (Inl e)
        from chunk_loop_emit_raise[OF Inr over ne n(1) Inl] run show ?thesis by simp
      next
        case ct': (Inr ct')
        have "chunk_inv (pre @ line # rest) (pre @ [line])
               (chunks @ [\<lparr>content = join_nl cc, file_path = fp, start_line = sl,
                    end_line = (int (length pre) + 1) - 1, owner = ow, repo = rp\<rparr>],
                drop n cc @ [line], ct', (int (length pre) + 1) - int (length (drop n cc)))"
          using chunk_inv_emit[OF Cons.prems(1)[unfolded st] ne nlpre n(2)] .
        then have inv': "chunk_inv ((pre @ [line]) @ rest) (pre @ [line])
               (chunks @ [\<lparr>content = join_nl cc, file_path = fp, start_line = sl,
                    end_line = i - 1, owner = ow, repo = rp\<rparr>],
                drop n cc @ [line], ct', i - int (length (drop n cc)))"
          using Cons.prems(3) by simp
        have "chunk_loop self fp ow rp (i + 1) rest
               (chunks @ [\<lparr>content = join_nl cc, file_path = fp, start_line = sl,
                    end_line = i - 1, owner = ow, repo = rp\<rparr>],
                drop n cc @ [line], ct', i - int (length (drop n cc))) = Inr st'"
          using run unfolding chunk_loop_emit[OF Inr over ne n(1) ct'] .
        from Cons.IH[OF inv' nl' i' this] show ?thesis by simp
      qed
    next
      case False
      have inv': "chunk_inv ((pre @ [line]) @ rest) (pre @ [line]) (chunks, cc @ [line], ct + lt, sl)"
        using chunk_inv_append[OF Cons.prems(1)[unfolded st]] by simp
      have "chunk_loop self fp ow rp (i + 1) rest (chunks, cc @ [line], ct + lt, sl) = Inr st'"
        using run unfolding chunk_loop_keep[OF Inr False] .
      from Cons.IH[OF inv' nl' i' this] show ?thesis by simp
    qed
  qed
qed

lemma sum_tokens_returns:
  assumes "\<forall>l\<in>set ls. \<not> isl (encoding self (l @ [CHR 0x0A]))"
  shows "\<exists>n. sum_tokens self ls = Inr n"
  using assms
proof (induction ls)
  case Nil
  show ?case by simp
next
  case (Cons l ls)
  then obtain m where m: "sum_tokens self ls = Inr m" by auto
  from Cons.prems obtain ts where "encoding self (l @ [CHR 0x0A]) = Inr ts"
    by (cases "encoding self (l @ [CHR 0x0A])") auto
  then have "count_tokens self (l @ [CHR 0x0A]) = Inr (length ts)"
    by (simp add: count_tokens_def)
  with m show ?case by simp
qed

lemma count_tokens_returns:
  assumes "\<not> isl (encoding self t)"
  shows "\<exists>n. count_tokens self t = Inr n"
  using assms by (cases "encoding self t") (auto simp: count_tokens_def)

lemma count_tokens_raises:
  assumes "isl (encoding self t)"
  shows "\<exists>e. count_tokens self t = Inl e"
  using assms by (cases "encoding self t") (auto simp: count_tokens_def)

lemma chunk_loop_returns:
  assumes "\<forall>l\<in>set rest. \<not> isl (encoding self (l @ [CHR 0x0A]))"
    and "\<forall>l\<in>set (fst (snd st)). \<not> isl (encoding self (l @ [CHR 0x0A]))"
  shows "\<exists>st'. chunk_loop self fp ow rp i rest st = Inr st'"
  using assms
proof (induction rest arbitrary: st i)
  case Nil
  show ?case by (intro exI[of _ st]) simp
next
  case (Cons line rest)
  obtain chunks cc ct sl where st: "st = (chunks, cc, ct, sl)"
    by (rule prod_cases4)
  from Cons.prems(1) have line: "\<not> isl (encoding self (line @ [CHR 0x0A]))"
    and rest: "\<forall>l\<in>set rest. \<not> isl (encoding self (l @ [CHR 0x0A]))" by simp_all
  from Cons.prems(2) have buf: "\<forall>l\<in>set cc. \<not> isl (encoding self (l @ [CHR 0x0A]))"
    unfolding st by simp
  from count_tokens_returns[OF line] obtain lt where
    lt: "count_tokens self (line @ [CHR 0x0A]) = Inr lt" by blast
  show ?case
  proof (cases "int (ct + lt) > max_chunk_size self \<and> cc \<noteq> []")
    case True
    then have over: "int (ct + lt) > max_chunk_size self" and ne: "cc \<noteq> []" by simp_all
    obtain n where n: "(if chunk_overlap self \<noteq> 0
             then slice_from (- chunk_overlap self) cc else []) = drop n cc"
      using overlap_suffix by blast
    have buf': "\<forall>l\<in>set (drop n cc @ [line]). \<not> isl (encoding self (l @ [CHR 0x0A]))"
      using buf line by (auto dest: in_set_dropD)
    from sum_tokens_returns[OF buf'] obtain ct' where
      ct': "sum_tokens self (drop n cc @ [line]) = Inr ct'" by blast
    show ?thesis
      unfolding st chunk_loop_emit[OF lt over ne n ct']
      by (rule Cons.IH[OF rest]) (use buf' in simp)
  next
    case False
    have buf': "\<forall>l\<in>set (cc @ [line]). \<not> isl (encoding self (l @ [CHR 0x0A]))"
      using buf line by simp
    show ?thesis
      unfolding st chunk_loop_keep[OF lt False]
      by (rule Cons.IH[OF rest]) (use buf' in simp)
  qed
qed


section \<open>Properties of chunk_by_lines\<close>

lemma chunk_loop_final:
  assumes "chunk_loop self fp ow rp 1 (split_nl doc) ([], [], 0, 1) = Inr st'"
  shows "chunk_inv (split_nl doc) (split_nl doc) st'"
proof -
  have "chunk_inv ([] @ split_nl doc) ([] @ split_nl doc) st'"
    by (rule chunk_loop_inv[where i = 1 and st = "([], [], 0, 1)"])
       (use assms in \<open>auto simp: chunk_inv_init dest: split_nl_no_newline\<close>)
  then show ?thesis by simp
qed

lemma chunk_by_lines_cases:
  assumes "chunk_by_lines self doc fp ow rp = Inr cs"
  obtains chunks cc ct sl where
    "chunk_inv (split_nl doc) (split_nl doc) (chunks, cc, ct, sl)"
    "cc \<noteq> []"
    "cs = chunks @ [\<lparr>content = join_nl cc, file_path = fp, start_line = sl,
                end_line = int (length (split_nl doc)), owner = ow, repo = rp\<rparr>]"
proof -
  from assms obtain st' where
    run: "chunk_loop self fp ow rp 1 (split_nl doc) ([], [], 0, 1) = Inr st'"
    unfolding chunk_by_lines_def Let_def by (auto split: sum.splits)
  obtain chunks cc ct sl where st: "st' = (chunks, cc, ct, sl)"
    by (rule prod_cases4)
  have inv: "chunk_inv (split_nl doc) (split_nl doc) (chunks, cc, ct, sl)"
    using chunk_loop_final[OF run] unfolding st .
  have ne: "cc \<noteq> []"
    using inv split_nl_nonempty[of doc] unfolding chunk_inv_def by auto
  have "cs = chunks @ [\<lparr>content = join_nl cc, file_path = fp, start_line = sl,
                end_line = int (length (split_nl doc)), owner = ow, repo = rp\<rparr>]"
    using assms ne unfolding chunk_by_lines_def Let_def run st by simp
  with inv ne show ?thesis by (rule that)
qed

lemma chunk_by_lines_chunk:
  assumes "chunk_by_lines self doc fp ow rp = Inr cs" and "c \<in> set cs"
  shows "1 \<le> start_line c \<and> start_line c \<le> end_line c \<and>
         end_line c \<le> int (length (split_nl doc)) \<and>
         content c = join_nl (lines_range (split_nl doc) (start_line c) (end_line c))"
proof -
  let ?all = "split_nl doc"
  from assms(1) obtain chunks cc ct sl where
    inv: "chunk_inv ?all ?all (chunks, cc, ct, sl)" and ne: "cc \<noteq> []" and
    res: "cs = chunks @ [\<lparr>content = join_nl cc, file_path = fp, start_line = sl,
                end_line = int (length ?all), owner = ow, repo = rp\<rparr>]"
    by (rule chunk_by_lines_cases)
  from inv have sl: "1 \<le> sl" "sl \<le> int (length ?all) + 1"
    and cc: "cc = drop (nat (sl - 1)) ?all"
    and old: "\<And>c. c \<in> set chunks \<Longrightarrow> 1 \<le> start_line c \<and> start_line c \<le> end_line c \<and>
           end_line c \<le> int (length ?all) \<and>
           content c = join_nl (lines_range ?all (start_line c) (end_line c))"
    unfolding chunk_inv_def by simp_all
  from ne cc have sl_le: "sl \<le> int (length ?all)"
    by (cases "sl \<le> int (length ?all)") auto
  from assms(2) res consider "c \<in> set chunks"
    | "c = \<lparr>content = join_nl cc, file_path = fp, start_line = sl,
                end_line = int (length ?all), owner = ow, repo = rp\<rparr>"
    by auto
  then show ?thesis
  proof cases
    case 1
    then show ?thesis by (rule old)
  next
    case 2
    have "lines_range (?all @ []) sl (int (length ?all)) = drop (nat (sl - 1)) ?all"
      using sl by (rule lines_range_prefix)
    then show ?thesis using 2 sl sl_le cc by simp
  qed
qed

lemma lines_range_length:
  assumes "1 \<le> s" "s \<le> e" "e \<le> int (length ls)"
  shows "int (length (lines_range ls s e)) = e - s + 1"
  using assms by (simp add: lines_range_def)

lemma split_join_lines_range:
  assumes "1 \<le> s" "s \<le> e" "e \<le> int (length (split_nl doc))"
  shows "split_nl (join_nl (lines_range (split_nl doc) s e)) = lines_range (split_nl doc) s e"
proof (rule split_join_nl)
  from lines_range_length[OF assms] show "lines_range (split_nl doc) s e \<noteq> []"
    using assms by auto
  show "\<forall>l\<in>set (lines_range (split_nl doc) s e). CHR 0x0A \<notin> set l"
    by (auto simp: lines_range_def dest!: in_set_takeD in_set_dropD split_nl_no_newline)
qed



lemma chunk_by_lines_returns:
  assumes "tokenizer_returns self doc"
  shows "\<exists>cs. chunk_by_lines self doc fp ow rp = Inr cs"
proof -
  from assms have "\<forall>l\<in>set (split_nl doc). \<not> isl (encoding self (l @ [CHR 0x0A]))"
    by (simp add: tokenizer_returns_def list_all_iff)
  from chunk_loop_returns[OF this, of "([], [], 0, 1)" fp ow rp 1]
  obtain st' where "chunk_loop self fp ow rp 1 (split_nl doc) ([], [], 0, 1) = Inr st'"
    by auto
  then show ?thesis
    unfolding chunk_by_lines_def Let_def by (cases st' rule: prod_cases4) simp
qed



text \<open>
  Claim C10. Every chunk that \<open>chunk_by_lines\<close> emits satisfies
  \<open>1 \<le> start_line \<le> end_line \<le>\<close> the number of lines of the input, and the number of
  newline-separated lines of its content is \<open>end_line - start_line + 1\<close>. (Chunks are
  emitted exactly when the tokenizer returns on every line of the input:
  \<open>chunk_by_lines_returns\<close>, \<open>chunk_by_lines_raises\<close>.)
\<close>

theorem chunk_line_range:
  assumes "tokenizer_returns self doc"
  shows "\<exists>cs. chunk_by_lines self doc fp ow rp = Inr cs \<and>
           (\<forall>c\<in>set cs.
              1 \<le> start_line c \<and> start_line c \<le> end_line c \<and>
              end_line c \<le> int (length (split_nl doc)) \<and>
              int (length (split_nl (content c))) = end_line c - start_line c + 1)"
proof -
  from chunk_by_lines_returns[OF assms] obtain cs where
    cs: "chunk_by_lines self doc fp ow rp = Inr cs" by blast
  have "1 \<le> start_line c \<and> start_line c \<le> end_line c \<and>
         end_line c \<le> int (length (split_nl doc)) \<and>
         int (length (split_nl (content c))) = end_line c - start_line c + 1"
    if "c \<in> set cs" for c
  proof -
    from chunk_by_lines_chunk[OF cs that]
    have b: "1 \<le> start_line c" "start_line c \<le> end_line c"
       "end_line c \<le> int (length (split_nl doc))"
      and c: "content c = join_nl (lines_range (split_nl doc) (start_line c) (end_line c))"
      by simp_all
    have "split_nl (content c) = lines_range (split_nl doc) (start_line c) (end_line c)"
      unfolding c using b by (rule split_join_lines_range)
    with lines_range_length[OF b] b show ?thesis by simp
  qed
  with cs show ?thesis by blast
qed


lemma byte_chunker_returns: "tokenizer_returns byte_chunker doc"
  by (simp add: tokenizer_returns_def byte_chunker_def list_all_iff)

lemma byte_chunker_three_lines:
  "chunk_by_lines byte_chunker three_lines ''f.py'' ''o'' ''r'' =
     Inr [\<lparr>content = ''ab'', file_path = ''f.py'', start_line = 1, end_line = 1,
        owner = ''o'', repo = ''r''\<rparr>,
      \<lparr>content = ''ab'' @ [CHR 0x0A] @ ''cd'', file_path = ''f.py'', start_line = 1, end_line = 2,
        owner = ''o'', repo = ''r''\<rparr>,
      \<lparr>content = three_lines, file_path = ''f.py'', start_line = 1, end_line = 3,
        owner = ''o'', repo = ''r''\<rparr>]"
  by (simp add: chunk_by_lines_def byte_chunker_def three_lines_def count_tokens_def
      slice_from_def Let_def)



text \<open>
  Claim C10 at the second chunk of the three-line file.
\<close>

theorem chunk_line_range_witness:
  "chunk_by_lines byte_chunker three_lines ''f.py'' ''o'' ''r'' =
     Inr [\<lparr>content = ''ab'', file_path = ''f.py'', start_line = 1, end_line = 1,
        owner = ''o'', repo = ''r''\<rparr>,
      \<lparr>content = ''ab'' @ [CHR 0x0A] @ ''cd'', file_path = ''f.py'', start_line = 1, end_line = 2,
        owner = ''o'', repo = ''r''\<rparr>,
      \<lparr>content = three_lines, file_path = ''f.py'', start_line = 1, end_line = 3,
        owner = ''o'', repo = ''r''\<rparr>] \<and>
   int (length (split_nl three_lines)) = 3 \<and>
   int (length (split_nl (''ab'' @ [CHR 0x0A] @ ''cd''))) = 2 - 1 + 1"
proof -
  let ?c = "\<lparr>content = ''ab'' @ [CHR 0x0A] @ ''cd'', file_path = ''f.py'', start_line = 1,
        end_line = 2, owner = ''o'', repo = ''r''\<rparr>"
  from chunk_line_range[OF byte_chunker_returns, of three_lines "''f.py''" "''o''" "''r''"]
  obtain cs where cs: "chunk_by_lines byte_chunker three_lines ''f.py'' ''o'' ''r'' = Inr cs"
    and r: "\<forall>c\<in>set cs. 1 \<le> start_line c \<and> start_line c \<le> end_line c \<and>
              end_line c \<le> int (length (split_nl three_lines)) \<and>
              int (length (split_nl (content c))) = end_line c - start_line c + 1"
    by blast
  from cs have "?c \<in> set cs" unfolding byte_chunker_three_lines by auto
  with r have "int (length (split_nl (content ?c))) = end_line ?c - start_line ?c + 1"
    by blast
  then have "int (length (split_nl (''ab'' @ [CHR 0x0A] @ ''cd''))) = 2 - 1 + 1" by simp
  moreover have "int (length (split_nl three_lines)) = 3" by (simp add: three_lines_def)
  ultimately show ?thesis using byte_chunker_three_lines by simp
qed


text \<open>
  Claim C2 fails on the code. With a budget of four tokens and the default overlap of
  100 lines, the three-line file, no line of which exceeds the budget (three tokens
  each), has the two-line chunk of lines 1 to 2 with six tokens: the lines carried over
  as overlap are added to the new buffer without regard to the budget.
\<close>

theorem chunk_over_budget:
  "(\<exists>cs. chunk_by_lines byte_chunker three_lines ''f.py'' ''o'' ''r'' = Inr cs \<and>
      \<lparr>content = ''ab'' @ [CHR 0x0A] @ ''cd'', file_path = ''f.py'', start_line = 1, end_line = 2,
        owner = ''o'', repo = ''r''\<rparr> \<in> set cs) \<and>
   chunk_tokens byte_chunker \<lparr>content = ''ab'' @ [CHR 0x0A] @ ''cd'', file_path = ''f.py'',
        start_line = 1, end_line = 2, owner = ''o'', repo = ''r''\<rparr> = Inr 6 \<and>
   max_chunk_size byte_chunker = 4 \<and>
   split_nl (''ab'' @ [CHR 0x0A] @ ''cd'') = [''ab'', ''cd''] \<and>
   map (\<lambda>l. count_tokens byte_chunker (l @ [CHR 0x0A])) (split_nl three_lines) =
     [Inr 3, Inr 3, Inr 3]"
  by (simp add: byte_chunker_three_lines)
     (simp add: three_lines_def chunk_tokens_def count_tokens_def byte_chunker_def)

section \<open>Properties of sanitize_collection_name\<close>

lemma strip_underscores_subset: "set (strip_underscores s) \<subseteq> set s"
  unfolding strip_underscores_def
  by (metis set_rev set_dropWhileD subsetI)

lemma collection_suffix_chars:
  assumes "\<And>c. ascii_alnum c \<Longrightarrow> isalnum c"
  shows "\<forall>c\<in>set ''_collection''. isalnum c \<or> c = CHR ''_''"
  by (auto intro!: assms simp: ascii_alnum_def)

text \<open>
  Whatever \<open>isalnum\<close> says outside ASCII, as long as it accepts the ASCII letters and
  digits: the length of the name is between 3 and 60, it holds only alphanumeric
  characters and underscores, and it does not end with an underscore.
\<close>

lemma sanitize_postconditions:
  assumes ascii: "\<And>c. ascii_alnum c \<Longrightarrow> isalnum c"
  shows "3 \<le> length (sanitize_collection_name isalnum ow rp) \<and>
   length (sanitize_collection_name isalnum ow rp) \<le> 60 \<and>
   (\<forall>c\<in>set (sanitize_collection_name isalnum ow rp). isalnum c \<or> c = CHR ''_'') \<and>
   \<not> ends_with_underscore (sanitize_collection_name isalnum ow rp)"
proof -
  define s2 where "s2 = filter (\<lambda>c. isalnum c \<or> c = CHR ''_'')
    (map (\<lambda>c. if c = CHR ''-'' then CHR ''_'' else c) (ow @ ''_'' @ rp))"
  define s3 where "s3 = strip_underscores s2"
  define s4 where "s4 = (if length s3 > 60 then take 60 s3 else s3)"
  define s5 where "s5 = (if length s4 < 3 then s4 @ ''_collection'' else s4)"
  define s6 where "s6 = (if ends_with_underscore s5 then butlast s5 @ ''x'' else s5)"
  have res: "sanitize_collection_name isalnum ow rp = s6"
    unfolding sanitize_collection_name_def Let_def s6_def s5_def s4_def s3_def s2_def ..
  have c2: "\<forall>c\<in>set s2. isalnum c \<or> c = CHR ''_''"
    unfolding s2_def by auto
  have c3: "\<forall>c\<in>set s3. isalnum c \<or> c = CHR ''_''"
    using c2 strip_underscores_subset[of s2] unfolding s3_def by blast
  have c4: "\<forall>c\<in>set s4. isalnum c \<or> c = CHR ''_''"
    using c3 unfolding s4_def by (auto dest: in_set_takeD)
  have c5: "\<forall>c\<in>set s5. isalnum c \<or> c = CHR ''_''"
    using c4 collection_suffix_chars[of isalnum, OF ascii] unfolding s5_def
    by (cases "length s4 < 3") auto
  have x: "isalnum CHR ''x''" by (rule ascii) (simp add: ascii_alnum_def)
  have c6: "\<forall>c\<in>set s6. isalnum c \<or> c = CHR ''_''"
    using c5 x unfolding s6_def by (auto dest: in_set_butlastD)
  have l4: "length s4 \<le> 60" unfolding s4_def by simp
  have l5: "3 \<le> length s5 \<and> length s5 \<le> 60"
    using l4 unfolding s5_def by simp
  then have ne5: "s5 \<noteq> []" by auto
  have l6: "length s6 = length s5"
    using ne5 unfolding s6_def by simp
  have e6: "\<not> ends_with_underscore s6"
    unfolding s6_def by (simp add: ends_with_underscore_def)
  show ?thesis unfolding res using l5 l6 c6 e6 by simp
qed

lemma sanitize_examples:
  assumes "\<And>c. of_char c < (128::nat) \<Longrightarrow> isalnum c = ascii_alnum c"
  shows "sanitize_collection_name isalnum ''foo'' ''bar'' = ''foo_bar''"
    and "sanitize_collection_name isalnum ''a'' ''b'' = ''a_b''"
    and "sanitize_collection_name isalnum ''a--b'' ''c.d'' = ''a__b_cd''"
  by (simp_all add: sanitize_collection_name_def strip_underscores_def
      ends_with_underscore_def assms ascii_alnum_def)

text \<open>A letter outside ASCII that \<open>isalnum\<close> accepts is kept.\<close>

lemma sanitize_non_ascii_letter:
  assumes "\<And>c. of_char c < (128::nat) \<Longrightarrow> isalnum c = ascii_alnum c"
    and "isalnum (CHR 0xE9)"
  shows "sanitize_collection_name isalnum [CHR 0xE9] ''b'' = [CHR 0xE9, CHR ''_'', CHR ''b'']"
  by (simp add: sanitize_collection_name_def strip_underscores_def
      ends_with_underscore_def assms ascii_alnum_def)

text \<open>
  Claim C4 fails on the code. Whatever \<open>isalnum\<close> is, the name made from the owner
  \<^verbatim>\<open>-\<close> and the repository \<^verbatim>\<open>-\<close> is \<^verbatim>\<open>_collection\<close>, which starts with
  an underscore: when nothing is left after the underscores are stripped, the suffix
  appended for a short name brings its own leading underscore, and only the end of the
  result is repaired afterwards. (The length bounds, the character set, the last
  character and the three examples of the claim hold: \<open>sanitize_postconditions\<close>,
  \<open>sanitize_examples\<close>.)
\<close>

theorem sanitize_leading_underscore:
  "sanitize_collection_name isalnum ''-'' ''-'' = ''_collection'' \<and>
   hd (sanitize_collection_name isalnum ''-'' ''-'') = CHR ''_''"
  by (simp add: sanitize_collection_name_def strip_underscores_def ends_with_underscore_def)

section \<open>Properties of validate_url_node\<close>

lemma strip_prefix_append: "strip_prefix p (p @ s) = Some s"
  by (induction p) auto

lemma strip_prefix_Some: "strip_prefix p s = Some r \<Longrightarrow> s = p @ r"
  by (induction p s rule: strip_prefix.induct) (auto split: if_splits)

lemma takeWhile_segment:
  assumes "CHR ''/'' \<notin> set g" "rest = [] \<or> hd rest = CHR ''/''"
  shows "takeWhile (\<lambda>c. c \<noteq> CHR ''/'') (g @ rest) = g"
    and "dropWhile (\<lambda>c. c \<noteq> CHR ''/'') (g @ rest) = rest"
proof -
  have "takeWhile (\<lambda>c. c \<noteq> CHR ''/'') rest = []" "dropWhile (\<lambda>c. c \<noteq> CHR ''/'') rest = rest"
    using assms(2) by (cases rest; auto)+
  then show "takeWhile (\<lambda>c. c \<noteq> CHR ''/'') (g @ rest) = g"
    and "dropWhile (\<lambda>c. c \<noteq> CHR ''/'') (g @ rest) = rest"
    using assms(1) by (induction g) auto
qed

lemma re_match_github_accepts:
  assumes "ow \<noteq> []" "rp \<noteq> []" "CHR ''/'' \<notin> set ow" "CHR ''/'' \<notin> set rp"
    and "rest = [] \<or> hd rest = CHR ''/''"
    and "d \<noteq> CHR 0x0A"
  shows "re_match_github (''https://github'' @ d # ''com/'' @ ow @ ''/'' @ rp @ rest) = Some (ow, rp)"
proof -
  have 1: "strip_prefix ''https://github'' (''https://github'' @ d # ''com/'' @ ow @ ''/'' @ rp @ rest)
      = Some (d # ''com/'' @ ow @ ''/'' @ rp @ rest)"
    by (rule strip_prefix_append)
  have 2: "strip_prefix ''com/'' (''com/'' @ ow @ ''/'' @ rp @ rest) = Some (ow @ ''/'' @ rp @ rest)"
    by (rule strip_prefix_append)
  have 3: "takeWhile (\<lambda>c. c \<noteq> CHR ''/'') (ow @ ''/'' @ rp @ rest) = ow"
    "dropWhile (\<lambda>c. c \<noteq> CHR ''/'') (ow @ ''/'' @ rp @ rest) = ''/'' @ rp @ rest"
    using takeWhile_segment[OF assms(3), of "''/'' @ rp @ rest"] by simp_all
  have 4: "takeWhile (\<lambda>c. c \<noteq> CHR ''/'') (rp @ rest) = rp"
    using takeWhile_segment[OF assms(4,5)] by simp
  show ?thesis
    unfolding re_match_github_def 1 using assms(1,2,6) 2 3 4
    by (simp add: Let_def)
qed

lemma re_match_github_Some:
  assumes "re_match_github url = Some (g1, g2)"
  shows "\<exists>d rest. url = ''https://github'' @ d # ''com/'' @ g1 @ ''/'' @ g2 @ rest \<and>
           g1 \<noteq> [] \<and> g2 \<noteq> [] \<and> CHR ''/'' \<notin> set g1 \<and> CHR ''/'' \<notin> set g2 \<and>
           (rest = [] \<or> hd rest = CHR ''/'') \<and> d \<noteq> CHR 0x0A"
proof -
  from assms obtain r1 where r1: "strip_prefix ''https://github'' url = Some r1"
    unfolding re_match_github_def by (auto split: option.splits)
  from assms r1 obtain d r2 where r2: "r1 = d # r2" "d \<noteq> CHR 0x0A"
    unfolding re_match_github_def by (auto split: option.splits list.splits if_splits)
  from assms r1 r2 obtain r3 where r3: "strip_prefix ''com/'' r2 = Some r3"
    unfolding re_match_github_def by (auto split: option.splits)
  let ?p = "\<lambda>c. c \<noteq> CHR ''/''"
  from assms r1 r2 r3 have g1: "g1 = takeWhile ?p r3" "g1 \<noteq> []"
    unfolding re_match_github_def by (auto simp: Let_def split: list.splits if_splits)
  from assms r1 r2 r3 g1 obtain x r5 where r5: "dropWhile ?p r3 = x # r5"
    unfolding re_match_github_def by (auto simp: Let_def split: list.splits if_splits)
  from assms r1 r2 r3 g1 r5 have g2: "g2 = takeWhile ?p r5" "g2 \<noteq> []"
    unfolding re_match_github_def by (auto simp: Let_def split: list.splits if_splits)
  have x: "x = CHR ''/''"
    using hd_dropWhile[of ?p r3] r5 by auto
  have "r3 = g1 @ ''/'' @ r5"
    using takeWhile_dropWhile_id[of ?p r3] r5 g1 x by simp
  moreover have "r5 = g2 @ dropWhile ?p r5"
    using g2 by simp
  moreover have "dropWhile ?p r5 = [] \<or> hd (dropWhile ?p r5) = CHR ''/''"
    using hd_dropWhile[of ?p r5] by auto
  moreover have "CHR ''/'' \<notin> set g1" "CHR ''/'' \<notin> set g2"
    using g1 g2 by (auto dest: set_takeWhileD)
  moreover have "url = ''https://github'' @ d # ''com/'' @ r3"
    using strip_prefix_Some[OF r1] strip_prefix_Some[OF r3] r2 by simp
  ultimately show ?thesis using g1 g2 r2
    by (intro exI[of _ d] exI[of _ "dropWhile ?p r5"]) simp
qed

lemma validate_url_accepts:
  assumes "ow \<noteq> []" "rp \<noteq> []" "CHR ''/'' \<notin> set ow" "CHR ''/'' \<notin> set rp"
    and "rest = [] \<or> hd rest = CHR ''/''"
    and "repo_url state = ''https://github.com/'' @ ow @ ''/'' @ rp @ rest"
  shows "validate_url_node state =
           no_update\<lparr>upd_valid := Some True, upd_owner := Some ow, upd_repo := Some rp,
             upd_error := Some []\<rparr>"
proof -
  have "re_match_github (''https://github'' @ CHR ''.'' # ''com/'' @ ow @ ''/'' @ rp @ rest)
      = Some (ow, rp)"
    using assms(1-5) by (intro re_match_github_accepts) simp_all
  then show ?thesis
    unfolding validate_url_node_def assms(6) by simp
qed

lemma validate_url_rejects:
  assumes "\<not> (\<exists>d ow rp rest.
      repo_url state = ''https://github'' @ d # ''com/'' @ ow @ ''/'' @ rp @ rest \<and>
      ow \<noteq> [] \<and> rp \<noteq> [] \<and> CHR ''/'' \<notin> set ow \<and> CHR ''/'' \<notin> set rp)"
  shows "validate_url_node state =
           no_update\<lparr>upd_valid := Some False, upd_error := Some ''Invalid GitHub URL''\<rparr>"
proof (cases "re_match_github (repo_url state)")
  case None
  then show ?thesis unfolding validate_url_node_def by simp
next
  case (Some g)
  obtain g1 g2 where "g = (g1, g2)" by (cases g)
  with Some re_match_github_Some[of "repo_url state" g1 g2] assms show ?thesis
    by blast
qed

text \<open>
  Claim C5 fails on the code. The dot of the pattern is not escaped and stands for any
  character but a newline, so the input \<^verbatim>\<open>https://githubXcom/a/b\<close>, whose host
  is not \<^verbatim>\<open>github.com\<close>, is accepted with owner \<^verbatim>\<open>a\<close> and repository
  \<^verbatim>\<open>b\<close> instead of being rejected with the error \<^verbatim>\<open>Invalid GitHub URL\<close>.
  (A URL of the stated form is accepted with its first two segments, and an input that
  has not even the shape with an arbitrary character for the dot is rejected:
  \<open>validate_url_accepts\<close>, \<open>validate_url_rejects\<close>.)
\<close>

theorem validate_url_unescaped_dot:
  "validate_url_node \<lparr>repo_url = ''https://githubXcom/a/b'', chat_history = None,
      state_owner = None, state_repo = None, collection_name = None\<rparr> =
     no_update\<lparr>upd_valid := Some True, upd_owner := Some ''a'', upd_repo := Some ''b'',
       upd_error := Some []\<rparr>"
  by (simp add: validate_url_node_def re_match_github_def)

section \<open>Properties of generate_batch_embeddings\<close>

lemma batch_loop_oracle:
  assumes "0 < bs" and "\<And>batch. api batch = Inr (map e batch)"
  shows "\<exists>groups. batch_loop api texts bs i embeddings calls =
            (Inr (embeddings @ map e (drop i texts)), calls @ map EmbeddingsCreate groups) \<and>
          concat groups = drop i texts \<and>
          (\<forall>g\<in>set groups. g \<noteq> [] \<and> length g \<le> bs)"
  using assms
proof (induction api texts bs i embeddings calls rule: batch_loop.induct)
  case (1 api texts bs i embeddings calls)
  show ?case
  proof (cases "length texts \<le> i")
    case True
    then have "batch_loop api texts bs i embeddings calls = (Inr embeddings, calls)"
      by (subst batch_loop.simps) simp
    with True show ?thesis
      by (intro exI[of _ "[]"]) simp
  next
    case False
    let ?batch = "take bs (drop i texts)"
    let ?calls = "calls @ [EmbeddingsCreate ?batch]"
    have cond: "\<not> (bs = 0 \<or> length texts \<le> i)" using False "1.prems"(1) by simp
    have api: "api ?batch = Inr (map e ?batch)" by (rule "1.prems"(2))
    from "1.IH"[OF cond refl api "1.prems"]
    obtain groups where
      g: "batch_loop api texts bs (i + bs) (embeddings @ map e ?batch) ?calls =
            (Inr ((embeddings @ map e ?batch) @ map e (drop (i + bs) texts)),
             ?calls @ map EmbeddingsCreate groups)"
        "concat groups = drop (i + bs) texts"
        "\<forall>g\<in>set groups. g \<noteq> [] \<and> length g \<le> bs"
      by blast
    have split: "?batch @ drop (i + bs) texts = drop i texts"
      using append_take_drop_id[of bs "drop i texts"] by (simp add: add.commute)
    have unfold: "batch_loop api texts bs i embeddings calls =
        batch_loop api texts bs (i + bs) (embeddings @ map e ?batch) ?calls"
      using cond api by (subst batch_loop.simps) (simp add: Let_def)
    have ne: "?batch \<noteq> []" using False "1.prems"(1) by simp
    have "map e (?batch @ drop (i + bs) texts) = map e (drop i texts)"
      by (rule arg_cong[OF split])
    then have emb: "(embeddings @ map e ?batch) @ map e (drop (i + bs) texts) =
        embeddings @ map e (drop i texts)"
      by simp
    show ?thesis
      unfolding unfold g(1) emb using g(2,3) split ne
      by (intro exI[of _ "?batch # groups"]) simp
  qed
qed

lemma generate_embedding_oracle:
  assumes "\<And>batch. api batch = Inr (map e batch)"
  shows "generate_embedding api t = (Inr (e t), [EmbeddingsCreate [t]])"
  by (simp add: generate_embedding_def assms)

text \<open>
  Claim C6. For a batch size of at least 1 and an embedding service that returns one
  vector per input in input order (the vector \<open>e t\<close> for the text \<open>t\<close>),
  \<open>generate_batch_embeddings\<close> issues one call per group of a partition of the texts
  into consecutive non-empty groups of at most \<open>batch_size\<close> texts, and returns a
  list as long as the texts whose element \<open>i\<close> is what \<open>generate_embedding\<close> returns
  for \<open>texts ! i\<close>.
\<close>

theorem batch_embeddings_order:
  fixes api :: "string list \<Rightarrow> string + 'v list"
  assumes "1 \<le> batch_size" and "\<forall>batch. api batch = Inr (map e batch)"
  shows "\<exists>groups.
           (generate_batch_embeddings api texts batch_size ::
              (string + 'v list) \<times> ('v, 'c) call list) =
             (Inr (map e texts), map EmbeddingsCreate groups) \<and>
           length (map e texts) = length texts \<and>
           (\<forall>i<length texts.
              (generate_embedding api (texts ! i) :: (string + 'v) \<times> ('v, 'c) call list) =
                (Inr (map e texts ! i), [EmbeddingsCreate [texts ! i]])) \<and>
           concat groups = texts \<and>
           (\<forall>g\<in>set groups. g \<noteq> [] \<and> int (length g) \<le> batch_size)"
proof -
  from assms(2) have api: "\<And>batch. api batch = Inr (map e batch)" by simp
  from assms(1) have pos: "0 < nat batch_size" by simp
  from batch_loop_oracle[OF pos api, of texts 0 "[]" "[] :: ('v, 'c) call list"]
  obtain groups where g: "batch_loop api texts (nat batch_size) 0 [] ([] :: ('v, 'c) call list) =
            (Inr (map e texts), map EmbeddingsCreate groups)"
     "concat groups = texts" "\<forall>g\<in>set groups. g \<noteq> [] \<and> length g \<le> nat batch_size"
    by auto
  have res: "(generate_batch_embeddings api texts batch_size ::
              (string + 'v list) \<times> ('v, 'c) call list) =
      (Inr (map e texts), map EmbeddingsCreate groups)"
    using assms(1) g(1) by (simp add: generate_batch_embeddings_def)
  have "\<forall>g\<in>set groups. g \<noteq> [] \<and> int (length g) \<le> batch_size"
    using g(3) assms(1) by auto
  with res g(2) show ?thesis
    by (intro exI[of _ groups]) (simp add: generate_embedding_oracle[OF api])
qed

text \<open>
  Claim C6 at three texts and the batch size 2, with the length of a text as its
  embedding: two calls, and the embeddings in the order of the texts.
\<close>

theorem batch_embeddings_order_witness:
  "(generate_batch_embeddings (\<lambda>b. Inr (map (\<lambda>s. int (length s)) b)) [''a'', ''bb'', ''ccc''] 2 ::
      (string + int list) \<times> (int, unit) call list) =
     (Inr [1, 2, 3], [EmbeddingsCreate [''a'', ''bb''], EmbeddingsCreate [''ccc'']])"
proof -
  let ?api = "\<lambda>b. Inr (map (\<lambda>s. int (length s)) b) :: string + int list"
  let ?res = "generate_batch_embeddings ?api [''a'', ''bb'', ''ccc''] 2 ::
      (string + int list) \<times> (int, unit) call list"
  have h1: "(1::int) \<le> 2" by simp
  have h2: "\<forall>batch. ?api batch = Inr (map (\<lambda>s. int (length s)) batch)"
    by simp
  from batch_embeddings_order[OF h1 h2, of "[''a'', ''bb'', ''ccc'']"]
  obtain groups where
    "?res = (Inr (map (\<lambda>s. int (length s)) [''a'', ''bb'', ''ccc'']), map EmbeddingsCreate groups)"
    by blast
  then have 1: "fst ?res = Inr [1, 2, 3]" by simp
  have 2: "snd ?res = [EmbeddingsCreate [''a'', ''bb''], EmbeddingsCreate [''ccc'']]"
    by (simp add: generate_batch_embeddings_def batch_loop.simps)
  from 1 2 show ?thesis by (simp add: prod_eq_iff)
qed

section \<open>Properties of store_chunks\<close>

lemma add_records_ids:
  "set (map record_id (add_records col rs)) = set (map record_id col) \<union> set (map record_id rs)"
  by (induction rs arbitrary: col) auto

lemma add_records_known:
  "set (map record_id rs) \<subseteq> set (map record_id col) \<Longrightarrow> add_records col rs = col"
  by (induction rs arbitrary: col) auto

lemma add_records_extends: "\<exists>ext. add_records col rs = col @ ext"
proof (induction rs arbitrary: col)
  case Nil
  show ?case by simp
next
  case (Cons r rs)
  show ?case
  proof (cases "record_id r \<in> set (map record_id col)")
    case True
    with Cons.IH[of col] show ?thesis by simp
  next
    case False
    with Cons.IH[of "col @ [r]"] show ?thesis by auto
  qed
qed

lemma add_records_distinct:
  "distinct (map record_id col) \<Longrightarrow> distinct (map record_id (add_records col rs))"
  by (induction rs arbitrary: col) auto

lemma add_records_length: "length (add_records col rs) \<le> length col + length rs"
proof (induction rs arbitrary: col)
  case Nil
  show ?case by simp
next
  case (Cons r rs)
  show ?case
    using Cons.IH[of col] Cons.IH[of "col @ [r]"] by auto
qed

lemma record_ids_zip:
  assumes "length documents = length ids" "length embeddings = length ids"
    "length metadatas = length ids"
  shows "map record_id
           (map (\<lambda>(i, d, e, m). \<lparr>record_id = i, document = d, embedding = e, metadata = m\<rparr>)
                (zip ids (zip documents (zip embeddings metadatas)))) = ids"
proof -
  have "map record_id
           (map (\<lambda>(i, d, e, m). \<lparr>record_id = i, document = d, embedding = e, metadata = m\<rparr>)
                (zip ids (zip documents (zip embeddings metadatas)))) =
        map fst (zip ids (zip documents (zip embeddings metadatas)))"
    by (simp add: case_prod_beta)
  also have "\<dots> = ids" using assms by simp
  finally show ?thesis .
qed

lemma store_chunks_Inr:
  assumes "length chunks = length embeddings"
  shows "\<exists>rs. store_chunks col chunks embeddings = Inr (add_records col rs) \<and>
              map record_id rs = map chunk_id chunks \<and> length rs = length chunks"
proof -
  let ?rs = "map (\<lambda>(i, d, e, m). \<lparr>record_id = i, document = d, embedding = e, metadata = m\<rparr>)
                (zip (map chunk_id chunks) (zip (map content chunks) (zip embeddings chunks)))"
  have "store_chunks col chunks embeddings = Inr (add_records col ?rs)"
    using assms by (simp add: store_chunks_def collection_add_def Let_def)
  moreover have "map record_id ?rs = map chunk_id chunks"
    using assms by (intro record_ids_zip) simp_all
  moreover have "length ?rs = length chunks" using assms by simp
  ultimately show ?thesis by blast
qed

lemma chunk_id_key:
  assumes "file_path c' = file_path c" "start_line c' = start_line c" "end_line c' = end_line c"
  shows "chunk_id c' = chunk_id c"
  using assms by (simp add: chunk_id_def)

text \<open>
  Claim C3. For every collection and every list of chunks with as many embeddings,
  \<open>store_chunks\<close> returns without an error, and submitting chunks with the same
  \<open>file_path\<close>, \<open>start_line\<close> and \<open>end_line\<close> (hence the same identifiers) a second
  time, whatever their content and embeddings, returns without an error and leaves the
  collection as it was: no record is added and none is overwritten. The first call adds
  at most one record per chunk, keeps the records already stored, and keeps the
  identifiers distinct, so a duplicate identifier inside the batch is dropped too.
\<close>

theorem store_chunks_idempotent:
  assumes "length chunks = length embeddings" and "length chunks' = length embeddings'"
    and "map (\<lambda>c. (file_path c, start_line c, end_line c)) chunks' =
         map (\<lambda>c. (file_path c, start_line c, end_line c)) chunks"
  shows "\<exists>col'. store_chunks col chunks embeddings = Inr col' \<and>
           store_chunks col' chunks' embeddings' = Inr col' \<and>
           length col' \<le> length col + length chunks \<and>
           take (length col) col' = col \<and>
           (distinct (map record_id col) \<longrightarrow> distinct (map record_id col'))"
proof -
  from store_chunks_Inr[OF assms(1), of col] obtain rs where
    rs: "store_chunks col chunks embeddings = Inr (add_records col rs)"
      "map record_id rs = map chunk_id chunks" "length rs = length chunks"
    by blast
  let ?col = "add_records col rs"
  from store_chunks_Inr[OF assms(2), of ?col] obtain rs' where
    rs': "store_chunks ?col chunks' embeddings' = Inr (add_records ?col rs')"
      "map record_id rs' = map chunk_id chunks'"
    by blast
  have len: "length chunks' = length chunks"
    using arg_cong[OF assms(3), of length] by simp
  have "map chunk_id chunks' = map chunk_id chunks"
  proof (rule nth_equalityI)
    show "length (map chunk_id chunks') = length (map chunk_id chunks)" using len by simp
  next
    fix i assume "i < length (map chunk_id chunks')"
    then have i: "i < length chunks'" "i < length chunks" using len by simp_all
    have "map (\<lambda>c. (file_path c, start_line c, end_line c)) chunks' ! i =
         map (\<lambda>c. (file_path c, start_line c, end_line c)) chunks ! i"
      using assms(3) by simp
    then have "chunk_id (chunks' ! i) = chunk_id (chunks ! i)"
      using i by (intro chunk_id_key) simp_all
    then show "map chunk_id chunks' ! i = map chunk_id chunks ! i" using i by simp
  qed
  then have "set (map record_id rs') \<subseteq> set (map record_id ?col)"
    unfolding rs'(2) add_records_ids rs(2) by simp
  then have same: "add_records ?col rs' = ?col" by (rule add_records_known)
  obtain ext where ext: "?col = col @ ext" using add_records_extends by blast
  have "take (length col) ?col = col" unfolding ext by simp
  moreover have "length ?col \<le> length col + length chunks"
    using add_records_length[of col rs] rs(3) by simp
  ultimately show ?thesis
    using rs(1) rs'(1) same add_records_distinct[of col rs] by auto
qed

lemma char_of_49: "char_of (49::nat) = CHR ''1''"
  by code_simp

text \<open>
  Claim C3 at the empty collection and a batch that holds the same chunk twice: one
  record is stored, and the second submission stores nothing.
\<close>

theorem store_chunks_idempotent_witness:
  "store_chunks [] [first_chunk, first_chunk] [1, 2] = Inr [first_record] \<and>
   store_chunks [first_record] [first_chunk, first_chunk] [1, 2] = Inr [first_record]"
proof -
  have ev: "store_chunks [] [first_chunk, first_chunk] [1, 2] = Inr [first_record]"
    by (simp add: store_chunks_def collection_add_def chunk_id_def str_int_def str_nat.simps
        first_chunk_def first_record_def char_of_49)
  from store_chunks_idempotent[of "[first_chunk, first_chunk]" "[1, 2 :: int]"
      "[first_chunk, first_chunk]" "[1, 2]" "[]"]
  obtain col' where "store_chunks [] [first_chunk, first_chunk] [1, 2 :: int] = Inr col'"
    "store_chunks col' [first_chunk, first_chunk] [1, 2] = Inr col'"
    by auto
  with ev show ?thesis by simp
qed

section \<open>Properties of chat_node\<close>

lemma chat_turn_embedding_fails:
  fixes svc :: "('v, 'c) services"
  assumes "fst (generate_embedding (embeddings_create svc) (msg_content (last h)) ::
             (string + 'v) \<times> ('v, 'c) call list) = Inl e"
  shows "fst (chat_turn svc state h) = Inl e"
  using assms unfolding chat_turn_def Let_def
  by (auto split: prod.splits sum.splits)

lemma chat_turn_retrieval_fails:
  fixes svc :: "('v, 'c) services"
  assumes "fst (generate_embedding (embeddings_create svc) (msg_content (last h)) ::
             (string + 'v) \<times> ('v, 'c) call list) = Inr qe"
    and "fst (retrieve_documents svc state qe) = Inl e"
  shows "fst (chat_turn svc state h) = Inl e"
  using assms unfolding chat_turn_def Let_def
  by (auto split: prod.splits sum.splits)

lemma chat_turn_completion_fails:
  fixes svc :: "('v, 'c) services"
  assumes "fst (generate_embedding (embeddings_create svc) (msg_content (last h)) ::
             (string + 'v) \<times> ('v, 'c) call list) = Inr qe"
    and "fst (retrieve_documents svc state qe) = Inr docs"
    and "chat_completions_create svc (system_prompt state)
           (user_prompt (py_join [CHR 0x0A, CHR 0x0A] docs) (conversation_context h)
              (msg_content (last h))) = Inl e"
  shows "fst (chat_turn svc state h) = Inl e"
  using assms unfolding chat_turn_def Let_def
  by (auto split: prod.splits sum.splits)

lemma chat_node_turn_fails:
  assumes "chat_history state = Some h" "h \<noteq> []" "fst (chat_turn svc state h) = Inl e"
  shows "fst (chat_node svc state) = chat_error e"
  using assms unfolding chat_node_def
  by (auto split: prod.splits sum.splits)

text \<open>
  Claim C7. For a state with a non-empty chat history, when the embedding step, the
  retrieval step or the call of the language model raises with the message \<open>e\<close>,
  \<open>chat_node\<close> returns (it raises nothing, being a total function) the fixed answer
  \<^verbatim>\<open>Sorry, I encountered an error while processing your question.\<close> and the
  error marker \<^verbatim>\<open>Error in chat: \<close> followed by \<open>e\<close>, which is not empty, and it
  does not set the chat history: no assistant turn is appended.
\<close>

theorem chat_node_error_atomic:
  fixes svc :: "('v, 'c) services"
  assumes "chat_history state = Some h" and "h \<noteq> []"
    and "fst (generate_embedding (embeddings_create svc) (msg_content (last h)) ::
             (string + 'v) \<times> ('v, 'c) call list) = Inl e
       \<or> (\<exists>qe. fst (generate_embedding (embeddings_create svc) (msg_content (last h)) ::
             (string + 'v) \<times> ('v, 'c) call list) = Inr qe \<and>
            (fst (retrieve_documents svc state qe) = Inl e
           \<or> (\<exists>docs. fst (retrieve_documents svc state qe) = Inr docs \<and>
                chat_completions_create svc (system_prompt state)
                  (user_prompt (py_join [CHR 0x0A, CHR 0x0A] docs) (conversation_context h)
                     (msg_content (last h))) = Inl e)))"
  shows "upd_answer (fst (chat_node svc state)) =
           Some ''Sorry, I encountered an error while processing your question.'' \<and>
         upd_error (fst (chat_node svc state)) = Some (''Error in chat: '' @ e) \<and>
         upd_error (fst (chat_node svc state)) \<noteq> Some [] \<and>
         upd_chat_history (fst (chat_node svc state)) = None"
proof -
  from assms(3) have "fst (chat_turn svc state h) = Inl e"
    using chat_turn_embedding_fails[of svc h e state]
      chat_turn_retrieval_fails[of svc h _ state e]
      chat_turn_completion_fails[of svc h _ state _ e]
    by blast
  from chat_node_turn_fails[OF assms(1,2) this] show ?thesis
    by (simp add: chat_error_def no_update_def)
qed

text \<open>
  Claim C8. For a state whose chat history is absent or empty, \<open>chat_node\<close> returns
  the greeting that names owner/repo as its answer, a history that consists of that
  single assistant turn, and it makes no call: no embedding call, no query of the
  vector store and no call of the language model.
\<close>

theorem chat_node_greeting:
  assumes "chat_history state = None \<or> chat_history state = Some []"
  shows "chat_node svc state =
           (no_update\<lparr>upd_answer := Some (welcome_message state),
              upd_chat_history :=
                Some [\<lparr>role = ''assistant'', msg_content = welcome_message state\<rparr>],
              upd_error := Some []\<rparr>, []) \<and>
         welcome_message state =
           ''Hello! I'm ready to help you with questions about the '' @
           get_or_empty (state_owner state) @ ''/'' @ get_or_empty (state_repo state) @
           '' repository. What would you like to know?''"
  using assms by (auto simp: chat_node_def greeting_update_def welcome_message_def)

text \<open>
  Claim C7 at a state with one user turn, where the embedding and the retrieval succeed
  and the language model raises.
\<close>

theorem chat_node_error_atomic_witness:
  "upd_answer (fst (chat_node llm_down_services one_turn_state)) =
     Some ''Sorry, I encountered an error while processing your question.'' \<and>
   upd_error (fst (chat_node llm_down_services one_turn_state)) =
     Some ''Error in chat: rate limit'' \<and>
   upd_chat_history (fst (chat_node llm_down_services one_turn_state)) = None"
proof -
  let ?h = "[\<lparr>role = ''user'', msg_content = ''hi''\<rparr>]"
  have h: "chat_history one_turn_state = Some ?h" "?h \<noteq> []"
    by (simp_all add: one_turn_state_def)
  have e: "fst (generate_embedding (embeddings_create llm_down_services) (msg_content (last ?h)) ::
             (string + int) \<times> (int, unit) call list) = Inr 2"
    by (simp add: generate_embedding_def llm_down_services_def)
  have r: "fst (retrieve_documents llm_down_services one_turn_state 2) = Inr [''def f(): pass'']"
    by (simp add: retrieve_documents_def create_or_get_collection_def query_similar_code_def
        llm_down_services_def one_turn_state_def)
  have c: "chat_completions_create llm_down_services (system_prompt one_turn_state)
                  (user_prompt (py_join [CHR 0x0A, CHR 0x0A] [''def f(): pass''])
                     (conversation_context ?h) (msg_content (last ?h))) = Inl ''rate limit''"
    by (simp add: llm_down_services_def)
  from e r c have "fst (generate_embedding (embeddings_create llm_down_services) (msg_content (last ?h)) ::
             (string + int) \<times> (int, unit) call list) = Inl ''rate limit''
       \<or> (\<exists>qe. fst (generate_embedding (embeddings_create llm_down_services) (msg_content (last ?h)) ::
             (string + int) \<times> (int, unit) call list) = Inr qe \<and>
            (fst (retrieve_documents llm_down_services one_turn_state qe) = Inl ''rate limit''
           \<or> (\<exists>docs. fst (retrieve_documents llm_down_services one_turn_state qe) = Inr docs \<and>
                chat_completions_create llm_down_services (system_prompt one_turn_state)
                  (user_prompt (py_join [CHR 0x0A, CHR 0x0A] docs) (conversation_context ?h)
                     (msg_content (last ?h))) = Inl ''rate limit'')))"
    by blast
  from chat_node_error_atomic[OF h this] show ?thesis by simp
qed

text \<open>
  Claim C8 at the state of the repository o/r with an empty history.
\<close>

theorem chat_node_greeting_witness:
  "chat_node llm_down_services no_turn_state =
     (no_update\<lparr>upd_answer := Some
          ''Hello! I'm ready to help you with questions about the o/r repository. What would you like to know?'',
        upd_chat_history := Some [\<lparr>role = ''assistant'', msg_content =
          ''Hello! I'm ready to help you with questions about the o/r repository. What would you like to know?''\<rparr>],
        upd_error := Some []\<rparr>, [])"
proof -
  have h: "chat_history no_turn_state = None \<or> chat_history no_turn_state = Some []"
    by (simp add: no_turn_state_def)
  have w: "welcome_message no_turn_state =
      ''Hello! I'm ready to help you with questions about the o/r repository. What would you like to know?''"
    by (simp add: welcome_message_def get_or_empty_def no_turn_state_def one_turn_state_def)
  from chat_node_greeting[OF h, of llm_down_services] show ?thesis
    unfolding w by simp
qed

end
